theory Spec2Isabelle
  imports Complex_Main "HOL-Library.Word"
begin

section \<open>Package gofi: channel widths, data rates and the MAC packet container\<close>

subsection \<open>Channel widths (handle.go)\<close>

text \<open>
  \<^verbatim>\<open>type ChannelWidth int\<close> with the untyped constants
  \<^verbatim>\<open>ChannelWidthUnspecified = iota\<close>, \<^verbatim>\<open>ChannelWidth20MHz\<close>, \<^verbatim>\<open>ChannelWidth40MHz\<close>,
  that is 0, 1 and 2. A channel width is an integer, so the model keeps it one: every
  integer is a value of the type, not only the three named ones.
\<close>

type_synonym ChannelWidth = int

definition ChannelWidthUnspecified :: ChannelWidth where
  "ChannelWidthUnspecified = 0"

definition ChannelWidth20MHz :: ChannelWidth where
  "ChannelWidth20MHz = 1"

definition ChannelWidth40MHz :: ChannelWidth where
  "ChannelWidth40MHz = 2"

text \<open>
  \<^verbatim>\<open>func NewChannelWidthMegahertz(mhz int) ChannelWidth\<close>: a switch on \<^verbatim>\<open>mhz\<close> with the
  cases 20, 40 and default, in this order. The function has no error result and no
  operation that can panic, so the model is a plain total function.
\<close>

definition NewChannelWidthMegahertz :: "int \<Rightarrow> ChannelWidth" where
  "NewChannelWidthMegahertz mhz =
     (if mhz = 20 then ChannelWidth20MHz
      else if mhz = 40 then ChannelWidth40MHz
      else ChannelWidthUnspecified)"

text \<open>
  The map literal of \<^verbatim>\<open>Megahertz\<close>:
  \<^verbatim>\<open>map[ChannelWidth]int{ChannelWidth20MHz: 20, ChannelWidth40MHz: 40}\<close>.
\<close>

definition megahertz_table :: "ChannelWidth \<rightharpoonup> int" where
  "megahertz_table = [ChannelWidth20MHz \<mapsto> 20, ChannelWidth40MHz \<mapsto> 40]"

text \<open>
  \<^verbatim>\<open>func (w ChannelWidth) Megahertz() int\<close> indexes the literal with \<^verbatim>\<open>w\<close>. Indexing a Go
  map with a key it does not hold yields the zero value of the element type, here 0.
\<close>

definition Megahertz :: "ChannelWidth \<Rightarrow> int" where
  "Megahertz w = (case megahertz_table w of Some v \<Rightarrow> v | None \<Rightarrow> 0)"

subsection \<open>Data rates (handle.go)\<close>

text \<open>
  \<^verbatim>\<open>type DataRate int\<close>, a rate in units of 500 Kb/s. Go's \<^verbatim>\<open>int\<close> is a machine integer, 64
  bits wide on the usual platforms. None of the functions modelled here does integer
  arithmetic on it, so the model takes the mathematical integer it denotes.
\<close>

type_synonym DataRate = int

text \<open>
  The conversion \<^verbatim>\<open>float64(d)\<close>. A float64 has a significand of 53 bits, and the
  conversion rounds to the nearest representable value, ties to the even significand.
  \<open>excess_bits n\<close> counts the low bits of the magnitude \<open>n\<close> that do not fit; the
  conversion drops them and rounds on what it dropped. The result is an integer again and
  is returned as such. (Magnitudes of a 64-bit integer stay far below the largest float64,
  so the conversion never overflows.)
\<close>

function excess_bits :: "int \<Rightarrow> nat" where
  "excess_bits n = (if n < 2 ^ 53 then 0 else Suc (excess_bits (n div 2)))"
  by pat_completeness auto
termination
  by (relation "measure nat") auto

declare excess_bits.simps [simp del]

definition float64_of_int :: "int \<Rightarrow> int" where
  "float64_of_int d =
     (let a = \<bar>d\<bar>;
          e = excess_bits a;
          q = a div 2 ^ e;
          r = a mod 2 ^ e;
          q' = (if 2 ^ e < 2 * r \<or> (2 * r = 2 ^ e \<and> odd q) then q + 1 else q)
      in sgn d * (q' * 2 ^ e))"

text \<open>
  The integers that are values of a float64, written out independently of the conversion:
  those of the form \<open>m * 2 ^ k\<close> with a significand \<open>\<bar>m\<bar> < 2 ^ 53\<close>. The function
  strips low zero bits until the magnitude fits 53 bits; \<open>is_float64_iff\<close> below shows
  that it decides exactly this form. (The exponent range of a float64 is left out, as
  above.)
\<close>

function is_float64 :: "int \<Rightarrow> bool" where
  "is_float64 x = (if \<bar>x\<bar> < 2 ^ 53 then True else even x \<and> is_float64 (x div 2))"
  by pat_completeness auto
termination
  by (relation "measure (\<lambda>x. nat \<bar>x\<bar>)") auto

declare is_float64.simps [simp del]

text \<open>Decimal digits of a non-negative integer, most significant first.\<close>

definition digit :: "int \<Rightarrow> char" where
  "digit n = ''0123456789'' ! nat n"

function decimal :: "int \<Rightarrow> string" where
  "decimal n = (if n < 10 then [digit n] else decimal (n div 10) @ [digit (n mod 10)])"
  by pat_completeness auto
termination
  by (relation "measure nat") auto

declare decimal.simps [simp del]

text \<open>
  The verb \<^verbatim>\<open>%.1f\<close> of \<^verbatim>\<open>fmt.Sprintf\<close> on a finite float64, which is given by the rational
  number it denotes: a minus sign for a negative value, the integer digits, a point and
  one fractional digit, the exact value being rounded to the nearest tenth, ties to the
  even digit.
\<close>

definition round_half_even :: "rat \<Rightarrow> int" where
  "round_half_even x =
     (let f = \<lfloor>x\<rfloor>; r = x - of_int f
      in if 1 / 2 < r \<or> (r = 1 / 2 \<and> odd f) then f + 1 else f)"

definition format_f1 :: "rat \<Rightarrow> string" where
  "format_f1 x =
     (let t = round_half_even (\<bar>x\<bar> * 10)
      in (if x < 0 then ''-'' else []) @ decimal (t div 10) @ ''.'' @ [digit (t mod 10)])"

text \<open>
  \<^verbatim>\<open>func (d DataRate) String() string\<close>:
  \<^verbatim>\<open>mbps := float64(d) / 2.0\<close>, then \<^verbatim>\<open>fmt.Sprintf("%.1f Mb/s", mbps)\<close>. Halving a float64
  that holds a non-zero integer only lowers its exponent, and halving zero gives zero, so
  the quotient is exact.
\<close>

definition DataRate_String :: "DataRate \<Rightarrow> string" where
  "DataRate_String d =
     (let mbps = of_int (float64_of_int d) / 2
      in format_f1 mbps @ '' Mb/s'')"

text \<open>
  What the specification asks of \<open>String\<close>, written out independently of the code: the
  exact half of \<open>d\<close> in decimal with one fractional digit, which is 0 for an even and 5
  for an odd \<open>d\<close>, followed by the unit.
\<close>

definition half_text :: "int \<Rightarrow> string" where
  "half_text d =
     (if d < 0 then ''-'' else []) @ decimal (\<bar>d\<bar> div 2) @ ''.'' @
     (if even d then ''0'' else ''5'') @ '' Mb/s''"

subsection \<open>MAC packets\<close>

type_synonym byte = "8 word"

text \<open>\<^verbatim>\<open>type MACPacket struct { RawData []byte }\<close>\<close>

record MACPacket =
  RawData :: "byte list"

text \<open>
  The result \<^verbatim>\<open>(*MACPacket, error)\<close> of the parser is a sum: \<open>Inr\<close> a packet stands
  for a non-nil packet with a nil error, \<open>Inl\<close> an error for a non-nil error. The source
  declares no error value of its own; \<open>DecodeError\<close> names the one failure a frame
  decoder is expected to report.
\<close>

datatype error = DecodeError

text \<open>
  \<^verbatim>\<open>func ParseMACPacket(data []byte) (*MACPacket, error)\<close>, whose body is
  \<^verbatim>\<open>return &MACPacket{data}, nil\<close>.
\<close>

definition ParseMACPacket :: "byte list \<Rightarrow> error + MACPacket" where
  "ParseMACPacket data = Inr \<lparr>RawData = data\<rparr>"

text \<open>
  \<^verbatim>\<open>func (m *MACPacket) Encode() []byte\<close>, whose body is \<^verbatim>\<open>return m.RawData\<close>. The method
  has a pointer receiver, so it could assign to the packet; the model passes the packet
  through as state and returns it beside the result. The body makes no assignment, so the
  packet comes back as it went in.
\<close>

definition Encode :: "MACPacket \<Rightarrow> byte list \<times> MACPacket" where
  "Encode m = (RawData m, m)"

section \<open>Properties\<close>

subsection \<open>Channel widths\<close>

lemma ChannelWidth_distinct:
  "ChannelWidth20MHz \<noteq> ChannelWidth40MHz"
  "ChannelWidth20MHz \<noteq> ChannelWidthUnspecified"
  "ChannelWidth40MHz \<noteq> ChannelWidthUnspecified"
  by (simp_all add: ChannelWidth20MHz_def ChannelWidth40MHz_def ChannelWidthUnspecified_def)

text \<open>
  C3. \<open>NewChannelWidthMegahertz\<close> returns \<open>ChannelWidth20MHz\<close> at 20,
  \<open>ChannelWidth40MHz\<close> at 40 and \<open>ChannelWidthUnspecified\<close> at every other integer. It
  is a total function without an error result, so no input makes it fail.
\<close>

theorem NewChannelWidthMegahertz_exact:
  "NewChannelWidthMegahertz 20 = ChannelWidth20MHz \<and>
   NewChannelWidthMegahertz 40 = ChannelWidth40MHz \<and>
   (mhz \<noteq> 20 \<and> mhz \<noteq> 40 \<longrightarrow> NewChannelWidthMegahertz mhz = ChannelWidthUnspecified)"
  by (simp add: NewChannelWidthMegahertz_def)

theorem NewChannelWidthMegahertz_exact_witness:
  "(80::int) \<noteq> 20 \<and> (80::int) \<noteq> 40 \<and>
   NewChannelWidthMegahertz 20 = ChannelWidth20MHz \<and>
   NewChannelWidthMegahertz 40 = ChannelWidth40MHz \<and>
   NewChannelWidthMegahertz 80 = ChannelWidthUnspecified"
  using NewChannelWidthMegahertz_exact [of 80] by simp

text \<open>
  C4. \<open>Megahertz\<close> gives 20 for \<open>ChannelWidth20MHz\<close>, 40 for \<open>ChannelWidth40MHz\<close>, and
  for \<open>ChannelWidthUnspecified\<close> the zero that a lookup of an absent key yields.
\<close>

theorem Megahertz_values:
  "Megahertz ChannelWidth20MHz = 20 \<and>
   Megahertz ChannelWidth40MHz = 40 \<and>
   megahertz_table ChannelWidthUnspecified = None \<and>
   Megahertz ChannelWidthUnspecified = 0"
  by (simp add: Megahertz_def megahertz_table_def
      ChannelWidth20MHz_def ChannelWidth40MHz_def ChannelWidthUnspecified_def)

text \<open>
  C6. For \<open>mhz\<close> equal to 20 or to 40, the width built from \<open>mhz\<close> converts back to
  \<open>mhz\<close>.
\<close>

theorem Megahertz_NewChannelWidthMegahertz:
  "mhz \<in> {20, 40} \<Longrightarrow> Megahertz (NewChannelWidthMegahertz mhz) = mhz"
  by (auto simp: Megahertz_def megahertz_table_def NewChannelWidthMegahertz_def
      ChannelWidth20MHz_def ChannelWidth40MHz_def)

theorem Megahertz_NewChannelWidthMegahertz_witness:
  "(40::int) \<in> {20, 40} \<and> Megahertz (NewChannelWidthMegahertz 40) = 40"
  using Megahertz_NewChannelWidthMegahertz [of 40] by simp

subsection \<open>Data rates\<close>

lemma excess_bits_small: "n < 2 ^ 53 \<Longrightarrow> excess_bits n = 0"
  by (simp add: excess_bits.simps)

lemma excess_bits_2_53: "excess_bits (2 ^ 53) = 1"
  by (subst excess_bits.simps) (simp add: excess_bits_small)

lemma float64_of_int_small: "\<bar>d\<bar> < 2 ^ 53 \<Longrightarrow> float64_of_int d = d"
  by (simp add: float64_of_int_def excess_bits_small Let_def mult_sgn_abs)

lemma float64_of_int_2_53:
  assumes "\<bar>d\<bar> = 2 ^ 53"
  shows "float64_of_int d = d"
proof -
  have "float64_of_int d = sgn d * \<bar>d\<bar>"
    unfolding float64_of_int_def Let_def assms excess_bits_2_53 by simp
  then show ?thesis by (simp add: mult_sgn_abs)
qed

text \<open>Every integer of magnitude up to \<open>2 ^ 53\<close> is a float64.\<close>

lemma float64_of_int_exact: "\<bar>d\<bar> \<le> 2 ^ 53 \<Longrightarrow> float64_of_int d = d"
  using float64_of_int_small [of d] float64_of_int_2_53 [of d] by linarith

lemma round_half_even_of_int: "round_half_even (of_int n) = n"
  by (simp add: round_half_even_def)

text \<open>A half-integer needs no rounding at one fractional digit.\<close>

lemma format_f1_half:
  "format_f1 (of_int k / 2) =
     (if k < 0 then ''-'' else []) @ decimal (\<bar>k\<bar> div 2) @ ''.'' @
     (if even k then ''0'' else ''5'')"
proof -
  have scale: "\<bar>(of_int k :: rat) / 2\<bar> * 10 = of_int (5 * \<bar>k\<bar>)"
    by simp
  have tenths: "round_half_even (\<bar>(of_int k :: rat) / 2\<bar> * 10) = 5 * \<bar>k\<bar>"
    unfolding scale by (rule round_half_even_of_int)
  have whole: "(5 * \<bar>k\<bar>) div 10 = \<bar>k\<bar> div 2"
    by simp
  have frac: "(5 * \<bar>k\<bar>) mod 10 = (if even k then 0 else 5)"
    by presburger
  have neg: "((of_int k :: rat) / 2 < 0) = (k < 0)"
    by simp
  show ?thesis
    unfolding format_f1_def Let_def tenths whole frac neg by (simp add: digit_def)
qed

text \<open>
  On every input, \<open>String\<close> prints the half of the float64 nearest to \<open>d\<close>, which need
  not be the half of \<open>d\<close>.
\<close>

lemma DataRate_String_float: "DataRate_String d = half_text (float64_of_int d)"
  by (simp add: DataRate_String_def half_text_def format_f1_half)

text \<open>What \<open>excess_bits\<close> leaves is a significand of at most 53 bits, and of exactly 53
  bits when something was dropped.\<close>

lemma excess_bits_div_less: "a div 2 ^ excess_bits a < 2 ^ 53"
proof (induction a rule: excess_bits.induct)
  case (1 n)
  show ?case
  proof (cases "n < 2 ^ 53")
    case True
    then show ?thesis by (simp add: excess_bits.simps)
  next
    case False
    have "excess_bits n = Suc (excess_bits (n div 2))"
      using False by (subst excess_bits.simps) simp
    moreover have "n div 2 ^ Suc (excess_bits (n div 2)) = (n div 2) div 2 ^ excess_bits (n div 2)"
      by (simp add: zdiv_zmult2_eq)
    ultimately show ?thesis using 1 False by simp
  qed
qed

lemma excess_bits_div_ge:
  "0 < excess_bits a \<Longrightarrow> 2 ^ 53 \<le> a div 2 ^ (excess_bits a - 1)"
proof (induction a rule: excess_bits.induct)
  case (1 n)
  show ?case
  proof (cases "n < 2 ^ 53")
    case True
    then have "excess_bits n = 0" by (simp add: excess_bits.simps)
    with 1 show ?thesis by simp
  next
    case False
    have e: "excess_bits n = Suc (excess_bits (n div 2))"
      using False by (subst excess_bits.simps) simp
    show ?thesis
    proof (cases "excess_bits (n div 2)")
      case 0
      with e False show ?thesis by simp
    next
      case (Suc k)
      have "2 ^ 53 \<le> (n div 2) div 2 ^ (excess_bits (n div 2) - 1)"
        using 1 False Suc by simp
      moreover have "n div 2 ^ Suc k = (n div 2) div 2 ^ k"
        by (simp add: zdiv_zmult2_eq)
      ultimately show ?thesis using e Suc by simp
    qed
  qed
qed

text \<open>\<open>is_float64\<close> decides the integers with a significand of 53 bits.\<close>

lemma is_float64_iff:
  "is_float64 x \<longleftrightarrow> (\<exists>m k. \<bar>m\<bar> < 2 ^ 53 \<and> x = m * 2 ^ k)"
proof
  show "is_float64 x \<Longrightarrow> \<exists>m k. \<bar>m\<bar> < 2 ^ 53 \<and> x = m * 2 ^ k"
  proof (induction x rule: is_float64.induct)
    case (1 x)
    show ?case
    proof (cases "\<bar>x\<bar> < 2 ^ 53")
      case True
      then have "\<bar>x\<bar> < 2 ^ 53 \<and> x = x * 2 ^ 0" by simp
      then show ?thesis by blast
    next
      case False
      with "1.prems" have ev: "even x" and f: "is_float64 (x div 2)"
        by (simp_all add: is_float64.simps [of x])
      from "1.IH" [OF False f] obtain m k where mk: "\<bar>m\<bar> < 2 ^ 53" "x div 2 = m * 2 ^ k"
        by blast
      from ev mk(2) have "x = m * 2 ^ Suc k" by auto
      with mk(1) show ?thesis by blast
    qed
  qed
next
  assume "\<exists>m k. \<bar>m\<bar> < 2 ^ 53 \<and> x = m * 2 ^ k"
  then obtain m k where mk: "\<bar>m\<bar> < 2 ^ 53" "x = m * 2 ^ k" by blast
  then show "is_float64 x"
  proof (induction k arbitrary: x)
    case 0
    then show ?case by (simp add: is_float64.simps)
  next
    case (Suc k)
    have "is_float64 (m * 2 ^ k)" using Suc.IH [OF Suc.prems(1)] by simp
    moreover have "x div 2 = m * 2 ^ k" "even x" using Suc.prems(2) by simp_all
    ultimately show ?case by (simp add: is_float64.simps [of x])
  qed
qed

lemma is_float64_uminus: "is_float64 (- x) = is_float64 x"
proof -
  have "(\<exists>m k. \<bar>m\<bar> < 2 ^ 53 \<and> - x = m * 2 ^ k) \<longleftrightarrow> (\<exists>m k. \<bar>m\<bar> < 2 ^ 53 \<and> x = m * 2 ^ k)"
  proof
    assume "\<exists>m k. \<bar>m\<bar> < 2 ^ 53 \<and> - x = m * 2 ^ k"
    then obtain m k where "\<bar>m\<bar> < 2 ^ 53" "- x = m * 2 ^ k" by blast
    then have "\<bar>- m\<bar> < 2 ^ 53 \<and> x = (- m) * 2 ^ k" by simp
    then show "\<exists>m k. \<bar>m\<bar> < 2 ^ 53 \<and> x = m * 2 ^ k" by blast
  next
    assume "\<exists>m k. \<bar>m\<bar> < 2 ^ 53 \<and> x = m * 2 ^ k"
    then obtain m k where "\<bar>m\<bar> < 2 ^ 53" "x = m * 2 ^ k" by blast
    then have "\<bar>- m\<bar> < 2 ^ 53 \<and> - x = (- m) * 2 ^ k" by simp
    then show "\<exists>m k. \<bar>m\<bar> < 2 ^ 53 \<and> - x = m * 2 ^ k" by blast
  qed
  then show ?thesis by (simp add: is_float64_iff)
qed

text \<open>From \<open>2 ^ 52 * 2 ^ e\<close> on, float64 values are multiples of \<open>2 ^ e\<close>.\<close>

lemma is_float64_dvd:
  "is_float64 y \<Longrightarrow> 2 ^ 52 * 2 ^ e \<le> \<bar>y\<bar> \<Longrightarrow> 2 ^ e dvd y"
proof (induction e arbitrary: y)
  case 0
  then show ?case by simp
next
  case (Suc e)
  define u :: int where "u = 2 ^ e"
  have "1 \<le> u" by (simp add: u_def)
  moreover have "2 ^ 52 * (2 * u) \<le> \<bar>y\<bar>" using Suc.prems(2) by (simp add: u_def)
  ultimately have big: "\<not> \<bar>y\<bar> < 2 ^ 53" by simp
  with Suc.prems(1) have ev: "even y" and f: "is_float64 (y div 2)"
    by (simp_all add: is_float64.simps [of y])
  from ev obtain z where z: "y = 2 * z" by (auto elim: evenE)
  have "2 ^ 52 * 2 ^ e \<le> \<bar>z\<bar>" using Suc.prems(2) z by (simp add: abs_mult)
  with f z have "2 ^ e dvd z" using Suc.IH [of z] by simp
  with z show ?case by simp
qed


lemma float64_of_int_uminus: "float64_of_int (- d) = - float64_of_int d"
  by (simp add: float64_of_int_def Let_def)

text \<open>The parts the conversion computes for a non-negative argument.\<close>

lemma float64_of_int_decomp:
  assumes "0 \<le> a"
  obtains e q r where
    "a = q * 2 ^ e + r" "0 \<le> r" "r < 2 ^ e" "0 \<le> q" "q < 2 ^ 53" "e = 0 \<or> 2 ^ 52 \<le> q"
    "float64_of_int a = (if 2 ^ e < 2 * r \<or> (2 * r = 2 ^ e \<and> odd q) then q + 1 else q) * 2 ^ e"
proof -
  define e where "e = excess_bits a"
  define q where "q = a div 2 ^ e"
  define r where "r = a mod 2 ^ e"
  have 1: "a = q * 2 ^ e + r" by (simp only: q_def r_def div_mult_mod_eq)
  have 2: "0 \<le> r" "r < 2 ^ e" by (simp_all add: r_def)
  have 3: "0 \<le> q" using assms by (simp add: q_def pos_imp_zdiv_nonneg_iff)
  have 4: "q < 2 ^ 53" unfolding q_def e_def by (rule excess_bits_div_less)
  have 5: "e = 0 \<or> 2 ^ 52 \<le> q"
  proof (cases e)
    case 0
    then show ?thesis by simp
  next
    case (Suc k)
    then have "2 ^ 53 \<le> a div 2 ^ k"
      using excess_bits_div_ge [of a] by (simp add: e_def)
    then have "(2 ^ 53 :: int) div 2 \<le> (a div 2 ^ k) div 2"
      by (rule zdiv_mono1) simp
    moreover have "a div (2 ^ k * 2) = (a div 2 ^ k) div 2"
      by (rule zdiv_zmult2_eq) simp
    then have "q = (a div 2 ^ k) div 2"
      by (simp add: q_def Suc mult.commute)
    ultimately show ?thesis by simp
  qed
  have 6: "float64_of_int a = (if 2 ^ e < 2 * r \<or> (2 * r = 2 ^ e \<and> odd q) then q + 1 else q) * 2 ^ e"
  proof (cases "a = 0")
    case True
    then have "e = 0" by (simp add: e_def excess_bits_small)
    with True show ?thesis by (simp add: float64_of_int_def q_def r_def)
  next
    case False
    with assms have "sgn a = 1" "\<bar>a\<bar> = a" by simp_all
    then show ?thesis
      by (simp add: float64_of_int_def Let_def e_def q_def r_def)
  qed
  from 1 2 3 4 5 6 show thesis by (rule that)
qed

lemma no_float64_between:
  assumes "is_float64 y" "2 ^ 52 \<le> q" "q * 2 ^ e < y" "y < (q + 1) * 2 ^ e"
  shows False
proof -
  have "(2::int) ^ 52 * 2 ^ e \<le> q * 2 ^ e" using assms(2) by (simp add: mult_right_mono)
  then have "2 ^ 52 * 2 ^ e \<le> \<bar>y\<bar>" using assms(3) by linarith
  with assms(1) have "2 ^ e dvd y" by (rule is_float64_dvd)
  then obtain c where c: "y = c * 2 ^ e" by (auto simp: dvd_def mult.commute)
  from assms(3,4) have "q < c" "c < q + 1" unfolding c by simp_all
  then show False by linarith
qed


lemma is_float64_rounded:
  assumes "0 \<le> q'" "q' \<le> 2 ^ 53"
  shows "is_float64 (q' * 2 ^ e)"
proof (cases "q' < 2 ^ 53")
  case True
  with assms(1) have "\<bar>q'\<bar> < 2 ^ 53 \<and> q' * 2 ^ e = q' * 2 ^ e" by simp
  then show ?thesis unfolding is_float64_iff by blast
next
  case False
  with assms(2) have "q' = 2 ^ 53" by simp
  then have "\<bar>2 ^ 52 :: int\<bar> < 2 ^ 53 \<and> q' * 2 ^ e = 2 ^ 52 * 2 ^ Suc e" by simp
  then show ?thesis unfolding is_float64_iff by blast
qed

lemma float64_of_int_nonneg:
  assumes a: "0 \<le> a"
  shows "is_float64 (float64_of_int a)"
    and "is_float64 y \<Longrightarrow> \<bar>float64_of_int a - a\<bar> \<le> \<bar>y - a\<bar>"
    and "is_float64 y \<Longrightarrow> y \<noteq> float64_of_int a \<Longrightarrow> \<bar>y - a\<bar> = \<bar>float64_of_int a - a\<bar> \<Longrightarrow>
           2 * \<bar>y - float64_of_int a\<bar> dvd float64_of_int a"
proof -
  from a obtain e q r where d:
    "a = q * 2 ^ e + r" "0 \<le> r" "r < 2 ^ e" "0 \<le> q" "q < 2 ^ 53" "e = 0 \<or> 2 ^ 52 \<le> q"
    "float64_of_int a = (if 2 ^ e < 2 * r \<or> (2 * r = 2 ^ e \<and> odd q) then q + 1 else q) * 2 ^ e"
    by (rule float64_of_int_decomp)
  define u :: int where "u = 2 ^ e"
  define lo where "lo = q * u"
  define up where "up = (2 ^ e < 2 * r \<or> (2 * r = 2 ^ e \<and> odd q))"
  define R where "R = float64_of_int a"
  have u: "0 < u" by (simp add: u_def)
  have alo: "a = lo + r" "r < u" using d(1,3) by (simp_all add: lo_def u_def)
  have R: "R = (if up then lo + u else lo)"
    unfolding R_def d(7) up_def lo_def u_def by (simp add: algebra_simps)
  have up1: "up \<Longrightarrow> u \<le> 2 * r" and up2: "\<not> up \<Longrightarrow> 2 * r \<le> u"
    unfolding up_def u_def by auto
  show "is_float64 (float64_of_int a)"
    unfolding d(7) using d(4,5) by (intro is_float64_rounded) auto
  have gap: "y \<le> lo \<or> lo + u \<le> y" if y: "is_float64 y" for y
  proof (cases "e = 0")
    case True
    then show ?thesis by (simp add: u_def) linarith
  next
    case False
    with d(6) have "2 ^ 52 \<le> q" by simp
    then have "\<not> (q * 2 ^ e < y \<and> y < (q + 1) * 2 ^ e)"
      using no_float64_between [OF y] by blast
    then show ?thesis by (simp add: lo_def u_def algebra_simps) linarith
  qed
  show "\<bar>float64_of_int a - a\<bar> \<le> \<bar>y - a\<bar>" if "is_float64 y"
    using gap [OF that] alo d(2) u up1 up2 unfolding R_def [symmetric] R
    by (cases up) (simp_all, linarith+)
  show "2 * \<bar>y - float64_of_int a\<bar> dvd float64_of_int a"
    if y: "is_float64 y" and ne: "y \<noteq> float64_of_int a"
      and tie: "\<bar>y - a\<bar> = \<bar>float64_of_int a - a\<bar>"
  proof (cases up)
    case True
    then have Rv: "R = lo + u" by (simp add: R)
    from gap [OF y] ne tie alo d(2) u up1 [OF True]
    have yv: "y = lo \<and> 2 * r = u" unfolding R_def [symmetric] Rv by linarith
    then have "odd q"
      using True unfolding up_def u_def by auto
    then have "even (q + 1)" by simp
    then obtain c where c: "q + 1 = 2 * c" by (rule evenE)
    have "lo + u = (q + 1) * u" by (simp add: lo_def algebra_simps)
    then have Rc: "R = 2 * u * c" unfolding c Rv by simp
    have dist: "\<bar>y - R\<bar> = u" using yv u by (simp add: Rv)
    show ?thesis unfolding R_def [symmetric] dist by (simp add: Rc)
  next
    case False
    then have Rv: "R = lo" by (simp add: R)
    from gap [OF y] ne tie alo d(2) u up2 [OF False]
    have yv: "y = lo + u \<and> 2 * r = u" unfolding R_def [symmetric] Rv by linarith
    then have "even q"
      using False unfolding up_def u_def by auto
    then obtain c where c: "q = 2 * c" by (rule evenE)
    have Rc: "R = 2 * u * c" unfolding Rv lo_def c by simp
    have dist: "\<bar>y - R\<bar> = u" using yv u by (simp add: Rv)
    show ?thesis unfolding R_def [symmetric] dist by (simp add: Rc)
  qed
qed


text \<open>
  The conversion returns a float64, no float64 is nearer to its argument, and where
  another float64 is as near, the one returned has the even significand (it is a multiple
  of twice the distance between the two).
\<close>

lemma float64_of_int_nearest_even:
  shows float64_of_int_is_float64: "is_float64 (float64_of_int d)"
    and float64_of_int_nearest:
      "is_float64 y \<Longrightarrow> \<bar>float64_of_int d - d\<bar> \<le> \<bar>y - d\<bar>"
    and float64_of_int_tie_even:
      "is_float64 y \<Longrightarrow> y \<noteq> float64_of_int d \<Longrightarrow> \<bar>y - d\<bar> = \<bar>float64_of_int d - d\<bar> \<Longrightarrow>
         2 * \<bar>y - float64_of_int d\<bar> dvd float64_of_int d"
proof -
  show "is_float64 (float64_of_int d)"
  proof (cases "0 \<le> d")
    case True
    then show ?thesis by (rule float64_of_int_nonneg(1))
  next
    case False
    then have "is_float64 (float64_of_int (- d))"
      by (intro float64_of_int_nonneg(1)) simp
    then show ?thesis by (simp add: float64_of_int_uminus is_float64_uminus)
  qed
  show "\<bar>float64_of_int d - d\<bar> \<le> \<bar>y - d\<bar>" if y: "is_float64 y"
  proof (cases "0 \<le> d")
    case True
    then show ?thesis using y by (rule float64_of_int_nonneg(2))
  next
    case False
    then have a: "0 \<le> - d" by simp
    from y have "is_float64 (- y)" by (simp add: is_float64_uminus)
    with a have "\<bar>float64_of_int (- d) - (- d)\<bar> \<le> \<bar>(- y) - (- d)\<bar>"
      by (rule float64_of_int_nonneg(2))
    then show ?thesis by (simp add: float64_of_int_uminus)
  qed
  show "2 * \<bar>y - float64_of_int d\<bar> dvd float64_of_int d"
    if y: "is_float64 y" and ne: "y \<noteq> float64_of_int d"
      and tie: "\<bar>y - d\<bar> = \<bar>float64_of_int d - d\<bar>"
  proof (cases "0 \<le> d")
    case True
    then show ?thesis using y ne tie by (rule float64_of_int_nonneg(3))
  next
    case False
    then have a: "0 \<le> - d" by simp
    have y': "is_float64 (- y)" using y by (simp add: is_float64_uminus)
    have ne': "- y \<noteq> float64_of_int (- d)"
      using ne by (simp add: float64_of_int_uminus)
    have tie': "\<bar>(- y) - (- d)\<bar> = \<bar>float64_of_int (- d) - (- d)\<bar>"
      using tie by (simp add: float64_of_int_uminus)
    have "2 * \<bar>(- y) - float64_of_int (- d)\<bar> dvd float64_of_int (- d)"
      using a y' ne' tie' by (rule float64_of_int_nonneg(3))
    moreover have "\<bar>(- y) - float64_of_int (- d)\<bar> = \<bar>y - float64_of_int d\<bar>"
      unfolding float64_of_int_uminus by arith
    ultimately show ?thesis by (simp add: float64_of_int_uminus)
  qed
qed

lemma float64_of_int_representable: "is_float64 d \<Longrightarrow> float64_of_int d = d"
  using float64_of_int_nearest [of d d] by simp

lemma is_float64_le_2_53: "\<bar>d\<bar> \<le> 2 ^ 53 \<Longrightarrow> is_float64 d"
  using float64_of_int_is_float64 [of d] by (simp add: float64_of_int_exact)

text \<open>These three properties leave the conversion no freedom.\<close>

lemma float64_of_int_unique:
  assumes r: "is_float64 r"
    and near: "\<And>y. is_float64 y \<Longrightarrow> \<bar>r - d\<bar> \<le> \<bar>y - d\<bar>"
    and even: "\<And>y. is_float64 y \<Longrightarrow> y \<noteq> r \<Longrightarrow> \<bar>y - d\<bar> = \<bar>r - d\<bar> \<Longrightarrow> 2 * \<bar>y - r\<bar> dvd r"
  shows "r = float64_of_int d"
proof (rule ccontr)
  define R where "R = float64_of_int d"
  assume "r \<noteq> float64_of_int d"
  then have ne: "r \<noteq> R" by (simp add: R_def)
  have R: "is_float64 R" unfolding R_def by (rule float64_of_int_is_float64)
  have "\<bar>r - d\<bar> \<le> \<bar>R - d\<bar>" using R by (rule near)
  moreover have "\<bar>R - d\<bar> \<le> \<bar>r - d\<bar>" unfolding R_def using r by (rule float64_of_int_nearest)
  ultimately have tie: "\<bar>R - d\<bar> = \<bar>r - d\<bar>" by simp
  have "2 * \<bar>R - r\<bar> dvd r" using R ne [symmetric] tie by (rule even)
  moreover have "2 * \<bar>r - R\<bar> dvd R"
    unfolding R_def using r ne tie [symmetric] by (intro float64_of_int_tie_even) (simp_all add: R_def)
  moreover have "\<bar>R - r\<bar> = \<bar>r - R\<bar>" by simp
  ultimately have "2 * \<bar>r - R\<bar> dvd r - R" by (simp add: dvd_diff)
  then have "2 * \<bar>r - R\<bar> dvd \<bar>r - R\<bar>" by simp
  moreover have "0 < \<bar>r - R\<bar>" using ne by simp
  ultimately have "2 * \<bar>r - R\<bar> \<le> \<bar>r - R\<bar>" by (rule zdvd_imp_le)
  with \<open>0 < \<bar>r - R\<bar>\<close> show False by simp
qed

text \<open>
  C5, as the code has it. For every data rate \<open>d\<close>, \<open>String\<close> returns the half of
  \<open>float64(d)\<close> with exactly one fractional digit, followed by \<open>Mb/s\<close>, where
  \<open>float64(d)\<close> is a float64 nearest to \<open>d\<close> and, of two equally near, the one with
  the even significand. For every \<open>d\<close> that is itself a float64, so for every \<open>d\<close> of
  magnitude at most \<open>2 ^ 53\<close>, this is the exact half of \<open>d\<close>. The witness has the
  instances at 11 and at 2, \<open>5.5 Mb/s\<close> and \<open>1.0 Mb/s\<close>, one at \<open>2 ^ 53 + 2\<close>, which is
  a float64 beyond \<open>2 ^ 53\<close>, and the tie at \<open>2 ^ 53 + 1\<close>.
\<close>

theorem DataRate_String_nearest_float64:
  "DataRate_String d = half_text (float64_of_int d) \<and>
   is_float64 (float64_of_int d) \<and>
   (is_float64 y \<longrightarrow> \<bar>float64_of_int d - d\<bar> \<le> \<bar>y - d\<bar>) \<and>
   (is_float64 y \<and> y \<noteq> float64_of_int d \<and> \<bar>y - d\<bar> = \<bar>float64_of_int d - d\<bar> \<longrightarrow>
      2 * \<bar>y - float64_of_int d\<bar> dvd float64_of_int d) \<and>
   (is_float64 d \<longrightarrow> DataRate_String d = half_text d) \<and>
   (\<bar>d\<bar> \<le> 2 ^ 53 \<longrightarrow> is_float64 d)"
  using float64_of_int_is_float64 [of d] float64_of_int_nearest [of y d]
    float64_of_int_tie_even [of y d] float64_of_int_representable [of d]
    is_float64_le_2_53 [of d] DataRate_String_float [of d]
  by simp

theorem DataRate_String_nearest_float64_witness:
  "\<bar>11 :: int\<bar> \<le> 2 ^ 53 \<and> is_float64 11 \<and> DataRate_String 11 = ''5.5 Mb/s'' \<and>
   \<bar>2 :: int\<bar> \<le> 2 ^ 53 \<and> is_float64 2 \<and> DataRate_String 2 = ''1.0 Mb/s'' \<and>
   is_float64 9007199254740994 \<and>
   DataRate_String 9007199254740994 = ''4503599627370497.0 Mb/s'' \<and>
   9007199254740994 \<noteq> float64_of_int 9007199254740993 \<and>
   \<bar>9007199254740994 - 9007199254740993\<bar> = \<bar>float64_of_int 9007199254740993 - 9007199254740993\<bar> \<and>
   2 * \<bar>9007199254740994 - float64_of_int 9007199254740993\<bar> dvd float64_of_int 9007199254740993"
proof -
  have small: "\<bar>11 :: int\<bar> \<le> 2 ^ 53" "\<bar>2 :: int\<bar> \<le> 2 ^ 53"
    by simp_all
  have texts: "half_text 11 = ''5.5 Mb/s''" "half_text 2 = ''1.0 Mb/s''"
    "half_text 9007199254740994 = ''4503599627370497.0 Mb/s''"
    by code_simp+
  have y: "is_float64 9007199254740994"
    by code_simp
  have tie: "9007199254740994 \<noteq> float64_of_int 9007199254740993"
    "\<bar>9007199254740994 - 9007199254740993\<bar> = \<bar>float64_of_int 9007199254740993 - 9007199254740993\<bar>"
    by code_simp+
  from small texts y tie
    DataRate_String_nearest_float64 [of 11 11]
    DataRate_String_nearest_float64 [of 2 2]
    DataRate_String_nearest_float64 [of 9007199254740994 9007199254740994]
    DataRate_String_nearest_float64 [of 9007199254740993 9007199254740994]
  show ?thesis by simp
qed

text \<open>
  C5, as stated for every data rate, fails. The 64-bit integer \<open>2 ^ 53 + 1\<close> is odd, so
  its half ends in \<open>.5\<close>; it is not a float64, the conversion rounds it to \<open>2 ^ 53\<close>,
  and \<open>String\<close> prints a value ending in \<open>.0\<close>.
\<close>

theorem DataRate_String_counterexample:
  "(9007199254740993 :: int) = 2 ^ 53 + 1 \<and>
   (9007199254740993 :: int) < 2 ^ 63 \<and>
   float64_of_int 9007199254740993 = 9007199254740992 \<and>
   DataRate_String 9007199254740993 = ''4503599627370496.0 Mb/s'' \<and>
   half_text 9007199254740993 = ''4503599627370496.5 Mb/s'' \<and>
   DataRate_String 9007199254740993 \<noteq> half_text 9007199254740993"
  by code_simp

subsection \<open>MAC packets\<close>

text \<open>
  C10. \<open>ParseMACPacket\<close> is total and never fails: for every byte sequence \<open>b\<close>, the
  empty one included, it returns a packet (no error) whose \<open>RawData\<close> is \<open>b\<close>, and
  encoding that packet gives \<open>b\<close> back.
\<close>

theorem ParseMACPacket_total:
  "(\<exists>m. ParseMACPacket b = Inr m \<and> RawData m = b \<and> fst (Encode m) = b) \<and>
   (\<exists>m. ParseMACPacket [] = Inr m \<and> RawData m = [] \<and> fst (Encode m) = [])"
  by (simp add: ParseMACPacket_def Encode_def)

text \<open>
  C1, as the code has it. The parser checks neither the length of its input nor any
  frame-type indicator: for every byte sequence, however short and whatever its first
  bytes, it returns a packet and no error, so no input makes it report a
  \<open>DecodeError\<close>.
\<close>

theorem ParseMACPacket_no_error:
  "ParseMACPacket b \<noteq> Inl e \<and> \<not> isl (ParseMACPacket b)"
  by (simp add: ParseMACPacket_def)

text \<open>
  C1, as stated, fails. The empty byte sequence is shorter than every header. The
  24-byte sequence that starts with \<open>0x0F\<close> is as long as a full header and carries
  protocol version 3 and the reserved frame type 3 in its frame-control field. The
  parser accepts both.
\<close>

theorem ParseMACPacket_short_counterexample:
  "length ([] :: byte list) < 1 \<and>
   ParseMACPacket [] = Inr \<lparr>RawData = []\<rparr> \<and>
   ParseMACPacket [] \<noteq> Inl DecodeError \<and>
   length (0x0F # replicate 23 (0 :: byte)) = 24 \<and>
   ParseMACPacket (0x0F # replicate 23 0) = Inr \<lparr>RawData = 0x0F # replicate 23 0\<rparr> \<and>
   ParseMACPacket (0x0F # replicate 23 0) \<noteq> Inl DecodeError"
  by (simp add: ParseMACPacket_def)

text \<open>
  C2. Round trip: parsing a byte sequence \<open>b\<close> succeeds and encoding the parsed packet
  yields exactly \<open>b\<close>. This holds for every \<open>b\<close>, hence for every well-formed frame,
  whatever a frame has to satisfy to be well formed.
\<close>

theorem Encode_ParseMACPacket_roundtrip:
  "(case ParseMACPacket b of Inr m \<Rightarrow> fst (Encode m) = b | Inl e \<Rightarrow> False)"
  by (simp add: ParseMACPacket_def Encode_def)

text \<open>
  C7. \<open>Encode\<close> is deterministic and leaves its receiver alone: the packet after a call
  is the packet before it, and a second call on it returns the same bytes as the first.
\<close>

theorem Encode_pure:
  "snd (Encode m) = m \<and>
   fst (Encode (snd (Encode m))) = fst (Encode m) \<and>
   fst (Encode m) = RawData m"
  by (simp add: Encode_def)

end
